theory Spec2Isabelle
  imports Complex_Main "HOL-Library.Log_Nat"
begin

text \<open>
  A model of \<^verbatim>\<open>max_return\<close> of \<^verbatim>\<open>src/main.py\<close>, the recursive search for the
  best sequence of currency conversions over the months of a rate tensor.

  \<^item> The rates and the portfolio value are Python floats and NumPy numbers in the source.
    The main model computes with exact reals; a second copy of the search rounds every
    product as double precision does, for the one property that the rounding decides.
    Infinities and NaN are outside both.
  \<^item> The NumPy array is a list of planes, each a list of rows; a read
    \<^verbatim>\<open>arr[i, j, k]\<close> checks every index against its axis, lets a negative index count
    from the end and raises IndexError otherwise.
  \<^item> The process environment is a map from names to strings, passed explicitly.
  \<^item> An exception is the left summand of the result.
  \<^item> Python's limit on the depth of the call stack is not modelled.
\<close>

section \<open>Data model\<close>

datatype error = IndexError | ValueError

type_synonym tensor = "real list list list"

type_synonym environ = "string \<rightharpoonup> string"

text \<open>\<^verbatim>\<open>os.getenv(name, default)\<close>.\<close>

definition getenv :: "environ \<Rightarrow> string \<Rightarrow> string \<Rightarrow> string" where
  "getenv env name dflt = (case env name of None \<Rightarrow> dflt | Some v \<Rightarrow> v)"

text \<open>
  \<^verbatim>\<open>int(s)\<close> on a string, in base 10: surrounding whitespace (space, tab, line feed,
  vertical tab, form feed, carriage return) is dropped, one sign is allowed, then digits,
  with single underscores between digits only. The strings of the model are ASCII; any
  other character makes the literal malformed (ValueError).
\<close>

definition is_space :: "char \<Rightarrow> bool" where
  "is_space c = ((of_char c :: nat) \<in> {9, 10, 11, 12, 13, 32})"

definition is_digit :: "char \<Rightarrow> bool" where
  "is_digit c = (48 \<le> (of_char c :: nat) \<and> (of_char c :: nat) \<le> 57)"

definition strip :: "string \<Rightarrow> string" where
  "strip s = rev (dropWhile is_space (rev (dropWhile is_space s)))"

fun no_double_underscore :: "string \<Rightarrow> bool" where
  "no_double_underscore (a # b # cs) =
     (\<not> (a = CHR ''_'' \<and> b = CHR ''_'') \<and> no_double_underscore (b # cs))"
| "no_double_underscore _ = True"

definition digits_value :: "string \<Rightarrow> nat" where
  "digits_value ds = foldl (\<lambda>acc c. 10 * acc + (of_char c - 48)) 0 ds"

definition py_int :: "string \<Rightarrow> error + int" where
  "py_int s =
     (let t = strip s;
          (neg, body) = (case t of
                           c # cs \<Rightarrow> if c = CHR ''-'' then (True, cs)
                                     else if c = CHR ''+'' then (False, cs)
                                     else (False, t)
                         | [] \<Rightarrow> (False, t))
      in if body \<noteq> [] \<and> is_digit (hd body) \<and> is_digit (last body)
            \<and> (\<forall>c \<in> set body. is_digit c \<or> c = CHR ''_'')
            \<and> no_double_underscore body
         then (let v = int (digits_value (filter is_digit body))
               in Inr (if neg then - v else v))
         else Inl ValueError)"

text \<open>One axis of a NumPy read, and the read \<^verbatim>\<open>arr[i, j, k]\<close> of a 3-dimensional array.\<close>

definition np_index :: "'a list \<Rightarrow> int \<Rightarrow> error + 'a" where
  "np_index xs i =
     (let n = int (length xs)
      in if - n \<le> i \<and> i < n then Inr (xs ! nat (if i < 0 then i + n else i))
         else Inl IndexError)"

definition item3 :: "'a list list list \<Rightarrow> int \<Rightarrow> int \<Rightarrow> int \<Rightarrow> error + 'a" where
  "item3 arr i j k =
     (case np_index arr i of
        Inl e \<Rightarrow> Inl e
      | Inr plane \<Rightarrow>
          (case np_index plane j of
             Inl e \<Rightarrow> Inl e
           | Inr row \<Rightarrow> np_index row k))"

section \<open>The search\<close>

text \<open>
  \<^verbatim>\<open>max_return\<close> with its \<^verbatim>\<open>for\<close> loop over \<^verbatim>\<open>range(num_currencies)\<close> as the
  second function, which carries the loop variable and the running maximum
  \<^verbatim>\<open>max_total_returns\<close>. A recursive call is made only after the read of the rate has
  succeeded, so the month is then below the number of planes of the tensor: this bounds
  the recursion for every input.
\<close>

function max_return ::
    "environ \<Rightarrow> int \<Rightarrow> int \<Rightarrow> real \<Rightarrow> tensor \<Rightarrow> int \<Rightarrow> int \<Rightarrow> error + real"
  and max_return_loop ::
    "environ \<Rightarrow> int \<Rightarrow> int \<Rightarrow> real \<Rightarrow> tensor \<Rightarrow> int \<Rightarrow> int \<Rightarrow> int \<Rightarrow> real \<Rightarrow> error + real"
where
  "max_return env month from_currency portfolio_value arr num_months num_currencies =
     (if month = num_months - 1 then
        (case py_int (getenv env ''TO_TRADE_CURRENCY'' ''0'') of
           Inl e \<Rightarrow> Inl e
         | Inr to_trade_currency \<Rightarrow>
             (case item3 arr month from_currency to_trade_currency of
                Inl e \<Rightarrow> Inl e
              | Inr trade_return \<Rightarrow> Inr (portfolio_value * trade_return)))
      else max_return_loop env month from_currency portfolio_value arr
             num_months num_currencies 0 0)"
| "max_return_loop env month from_currency portfolio_value arr num_months num_currencies
       to_trade_currency max_total_returns =
     (if to_trade_currency < num_currencies then
        (case item3 arr month from_currency to_trade_currency of
           Inl e \<Rightarrow> Inl e
         | Inr trade_return \<Rightarrow>
             (case max_return env (month + 1) to_trade_currency
                     (portfolio_value * trade_return) arr num_months num_currencies of
                Inl e \<Rightarrow> Inl e
              | Inr next_return \<Rightarrow>
                  max_return_loop env month from_currency portfolio_value arr
                    num_months num_currencies (to_trade_currency + 1)
                    (max max_total_returns next_return)))
      else Inr max_total_returns)"
  by pat_completeness auto
termination
  by (relation "inv_image (less_than <*lex*> less_than)
        (\<lambda>x. case x of
           Inl (env, month, fc, pv, arr, nm, nc) \<Rightarrow>
             (nat (int (length arr) - month), nat nc + 1)
         | Inr (env, month, fc, pv, arr, nm, nc, tc, acc) \<Rightarrow>
             (nat (int (length arr) - month), nat (nc - tc)))")
     (auto simp: item3_def np_index_def Let_def split: sum.splits if_splits)


text \<open>
  The same two functions with a bound on the depth of the recursion: every recursive call
  of \<^verbatim>\<open>max_return\<close> uses up one unit, and a call that would need one more returns
  \<open>None\<close>.
\<close>

function max_return_fuel ::
    "nat \<Rightarrow> environ \<Rightarrow> int \<Rightarrow> int \<Rightarrow> real \<Rightarrow> tensor \<Rightarrow> int \<Rightarrow> int
       \<Rightarrow> (error + real) option"
  and max_return_loop_fuel ::
    "nat \<Rightarrow> environ \<Rightarrow> int \<Rightarrow> int \<Rightarrow> real \<Rightarrow> tensor \<Rightarrow> int \<Rightarrow> int \<Rightarrow> int \<Rightarrow> real
       \<Rightarrow> (error + real) option"
where
  "max_return_fuel depth env month from_currency portfolio_value arr num_months num_currencies =
     (if month = num_months - 1 then
        (case py_int (getenv env ''TO_TRADE_CURRENCY'' ''0'') of
           Inl e \<Rightarrow> Some (Inl e)
         | Inr to_trade_currency \<Rightarrow>
             (case item3 arr month from_currency to_trade_currency of
                Inl e \<Rightarrow> Some (Inl e)
              | Inr trade_return \<Rightarrow> Some (Inr (portfolio_value * trade_return))))
      else max_return_loop_fuel depth env month from_currency portfolio_value arr
             num_months num_currencies 0 0)"
| "max_return_loop_fuel depth env month from_currency portfolio_value arr num_months
       num_currencies to_trade_currency max_total_returns =
     (if to_trade_currency < num_currencies then
        (case item3 arr month from_currency to_trade_currency of
           Inl e \<Rightarrow> Some (Inl e)
         | Inr trade_return \<Rightarrow>
             (case depth of
                0 \<Rightarrow> None
              | Suc depth' \<Rightarrow>
                  (case max_return_fuel depth' env (month + 1) to_trade_currency
                          (portfolio_value * trade_return) arr num_months num_currencies of
                     None \<Rightarrow> None
                   | Some (Inl e) \<Rightarrow> Some (Inl e)
                   | Some (Inr next_return) \<Rightarrow>
                       max_return_loop_fuel depth env month from_currency portfolio_value arr
                         num_months num_currencies (to_trade_currency + 1)
                         (max max_total_returns next_return))))
      else Some (Inr max_total_returns))"
  by pat_completeness auto
termination
  by (relation "inv_image (less_than <*lex*> less_than)
        (\<lambda>x. case x of
           Inl (depth, env, month, fc, pv, arr, nm, nc) \<Rightarrow> (depth, nat nc + 1)
         | Inr (depth, env, month, fc, pv, arr, nm, nc, tc, acc) \<Rightarrow> (depth, nat (nc - tc)))")
     auto

section \<open>The search in double precision\<close>

text \<open>
  A finite double is the rational number it denotes. \<open>fl\<close> rounds a rational to the
  nearest double, ties to the even significand: 53 significant bits, and below the normal
  range the fixed spacing \<open>2 ^ -1074\<close> of the subnormal numbers. It is the rounding of a
  Python float literal and of every float multiplication. Overflow to infinity, NaN and
  the sign of zero are outside this model.

  For \<open>\<bar>x\<bar> = p / q\<close> the bit lengths of p and q give an exponent \<open>e0\<close> with
  \<open>2 ^ 52 < \<bar>x\<bar> / 2 ^ e0 < 2 ^ 54\<close>; one more step puts the quotient below \<open>2 ^ 53\<close>.
  \<open>scaled p q e\<close> is that quotient \<open>(p / q) / 2 ^ e\<close> as a numerator and a denominator,
  and \<open>round_half_even n d\<close> the integer nearest to \<open>n / d\<close>.
\<close>

definition pow2 :: "int \<Rightarrow> rat" where
  "pow2 e = (if 0 \<le> e then 2 ^ nat e else 1 / 2 ^ nat (- e))"

definition scaled :: "int \<Rightarrow> int \<Rightarrow> int \<Rightarrow> int \<times> int" where
  "scaled p q e = (if 0 \<le> e then (p, q * 2 ^ nat e) else (p * 2 ^ nat (- e), q))"

definition round_half_even :: "int \<Rightarrow> int \<Rightarrow> int" where
  "round_half_even n d =
     (let f = n div d; r = n mod d
      in if d < 2 * r \<or> (d = 2 * r \<and> odd f) then f + 1 else f)"

definition fl :: "rat \<Rightarrow> rat" where
  "fl x =
     (if x = 0 then 0
      else
        (let (p, q) = quotient_of \<bar>x\<bar>;
             e0 = bitlen p - bitlen q - 53;
             (n0, d0) = scaled p q e0;
             e1 = (if 2 ^ 53 * d0 \<le> n0 then e0 + 1 else e0);
             e = max e1 (- 1074);
             (n, d) = scaled p q e
         in sgn x * of_int (round_half_even n d) * pow2 e))"



section \<open>Well-formed inputs\<close>

text \<open>
  The shape (num_months, num_currencies, num_currencies), rates that are not negative, and
  a call whose month, currency and configured target currency are within the shape.
\<close>

definition shape_ok :: "tensor \<Rightarrow> int \<Rightarrow> int \<Rightarrow> bool" where
  "shape_ok arr num_months num_currencies =
     (int (length arr) = num_months \<and>
      (\<forall>plane \<in> set arr. int (length plane) = num_currencies \<and>
         (\<forall>row \<in> set plane. int (length row) = num_currencies)))"

definition nonneg_rates :: "tensor \<Rightarrow> bool" where
  "nonneg_rates arr = (\<forall>plane \<in> set arr. \<forall>row \<in> set plane. \<forall>r \<in> set row. 0 \<le> r)"

definition rate :: "tensor \<Rightarrow> nat \<Rightarrow> nat \<Rightarrow> nat \<Rightarrow> real" where
  "rate arr p i j = arr ! p ! i ! j"

definition valid_call ::
    "environ \<Rightarrow> tensor \<Rightarrow> int \<Rightarrow> int \<Rightarrow> int \<Rightarrow> int \<Rightarrow> int \<Rightarrow> bool" where
  "valid_call env arr num_months num_currencies month from_currency target =
     (shape_ok arr num_months num_currencies \<and>
      py_int (getenv env ''TO_TRADE_CURRENCY'' ''0'') = Inr target \<and>
      0 \<le> target \<and> target < num_currencies \<and>
      0 \<le> month \<and> month < num_months \<and>
      0 \<le> from_currency \<and> from_currency < num_currencies)"

text \<open>The indices NumPy accepts on an axis of length n, and the position they denote.\<close>

definition in_bounds :: "nat \<Rightarrow> int \<Rightarrow> bool" where
  "in_bounds n i = (- int n \<le> i \<and> i < int n)"

definition wrap_index :: "nat \<Rightarrow> int \<Rightarrow> nat" where
  "wrap_index n i = nat (if i < 0 then i + int n else i)"

section \<open>The recurrence of the search without the error plumbing\<close>

text \<open>
  What the search computes on a well-formed call, k months before the last month
  \<open>lastp\<close>: the same recurrence, the running maximum starting at 0.
\<close>

fun search_value :: "tensor \<Rightarrow> nat \<Rightarrow> nat \<Rightarrow> nat \<Rightarrow> nat \<Rightarrow> nat \<Rightarrow> real \<Rightarrow> real" where
  "search_value arr nc target lastp 0 c v = v * rate arr lastp c target"
| "search_value arr nc target lastp (Suc k) c v =
     foldl max 0
       (map (\<lambda>d. search_value arr nc target lastp k d (v * rate arr (lastp - Suc k) c d))
          [0..<nc])"

section \<open>Specification-side definitions\<close>

text \<open>
  The legal paths over k + 1 periods (any destination below nc at every period but the
  last, the target at the last), the product of the rates along a path that starts at
  period p in currency c, and the largest such product.
\<close>

fun legal_paths :: "nat \<Rightarrow> nat \<Rightarrow> nat \<Rightarrow> nat list list" where
  "legal_paths nc target 0 = [[target]]"
| "legal_paths nc target (Suc k) =
     concat (map (\<lambda>d. map ((#) d) (legal_paths nc target k)) [0..<nc])"



text \<open>
  The bottom-up table: the row of the last period holds the rate into the target, the row
  k + 1 periods before the last is computed from the row k periods before it.
\<close>

fun dp_row :: "tensor \<Rightarrow> nat \<Rightarrow> nat \<Rightarrow> nat \<Rightarrow> nat \<Rightarrow> real list" where
  "dp_row arr nc target lastp 0 = map (\<lambda>c. rate arr lastp c target) [0..<nc]"
| "dp_row arr nc target lastp (Suc k) =
     (let nxt = dp_row arr nc target lastp k
      in map (\<lambda>c. Max (set (map (\<lambda>d. rate arr (lastp - Suc k) c d * nxt ! d) [0..<nc])))
           [0..<nc])"



section \<open>Basic facts about the model\<close>

declare max_return.simps [simp del] max_return_loop.simps [simp del]
declare max_return_fuel.simps [simp del] max_return_loop_fuel.simps [simp del]

lemma item3_valid:
  assumes "shape_ok arr nm nc" "0 \<le> i" "i < nm" "0 \<le> j" "j < nc" "0 \<le> k" "k < nc"
  shows "item3 arr i j k = Inr (rate arr (nat i) (nat j) (nat k))"
proof -
  have 1: "np_index arr i = Inr (arr ! nat i)"
    using assms by (simp add: np_index_def shape_ok_def)
  have "nat i < length arr" using assms by (simp add: shape_ok_def) linarith
  then have "arr ! nat i \<in> set arr" by (rule nth_mem)
  then have 2: "int (length (arr ! nat i)) = nc" "\<forall>row \<in> set (arr ! nat i). int (length row) = nc"
    using assms(1) by (auto simp: shape_ok_def)
  have 3: "np_index (arr ! nat i) j = Inr (arr ! nat i ! nat j)"
    using assms 2 by (simp add: np_index_def)
  have "nat j < length (arr ! nat i)" using assms 2 by linarith
  then have "arr ! nat i ! nat j \<in> set (arr ! nat i)" by (rule nth_mem)
  then have 4: "int (length (arr ! nat i ! nat j)) = nc" using 2 by blast
  have 5: "np_index (arr ! nat i ! nat j) k = Inr (arr ! nat i ! nat j ! nat k)"
    using assms 4 by (simp add: np_index_def)
  show ?thesis by (simp add: item3_def 1 3 5 rate_def)
qed

lemma loop_valid:
  assumes sh: "shape_ok arr nm nc" and m: "0 \<le> month" "month < nm" and c: "0 \<le> fc" "fc < nc"
    and tc: "0 \<le> tc"
    and nxt: "\<And>d. tc \<le> int d \<Longrightarrow> int d < nc \<Longrightarrow>
       max_return env (month + 1) (int d) (pv * rate arr (nat month) (nat fc) d) arr nm nc = Inr (g d)"
  shows "max_return_loop env month fc pv arr nm nc tc acc
         = Inr (foldl max acc (map g [nat tc..<nat nc]))"
  using tc nxt
proof (induction "nat (nc - tc)" arbitrary: tc acc)
  case 0
  then show ?case by (subst max_return_loop.simps) simp
next
  case (Suc n)
  then have lt: "tc < nc" by linarith
  have i3: "item3 arr month fc tc = Inr (rate arr (nat month) (nat fc) (nat tc))"
    using item3_valid[OF sh m c Suc.prems(1) lt] .
  have r: "max_return env (month + 1) tc (pv * rate arr (nat month) (nat fc) (nat tc)) arr nm nc
           = Inr (g (nat tc))"
    using Suc.prems(2)[of "nat tc"] Suc.prems(1) lt by simp
  have ih: "max_return_loop env month fc pv arr nm nc (tc + 1) (max acc (g (nat tc)))
        = Inr (foldl max (max acc (g (nat tc))) (map g [nat (tc + 1)..<nat nc]))"
    using Suc.hyps(1)[of "tc + 1"] Suc.hyps(2) Suc.prems by simp
  have up: "[nat tc..<nat nc] = nat tc # [nat (tc + 1)..<nat nc]"
    using lt Suc.prems(1) by (simp add: upt_conv_Cons nat_add_distrib)
  show ?case
    by (subst max_return_loop.simps) (simp add: lt i3 r ih up)
qed

lemma max_return_search_value:
  assumes sh: "shape_ok arr nm nc"
    and tg: "py_int (getenv env ''TO_TRADE_CURRENCY'' ''0'') = Inr t" "0 \<le> t" "t < nc"
    and m: "0 \<le> month" "month < nm" and c: "0 \<le> fc" "fc < nc"
  shows "max_return env month fc pv arr nm nc
         = Inr (search_value arr (nat nc) (nat t) (nat nm - 1) (nat (nm - 1 - month)) (nat fc) pv)"
  using m c
proof (induction "nat (nm - 1 - month)" arbitrary: month fc pv)
  case 0
  then have eq: "month = nm - 1" by linarith
  have "item3 arr month fc t = Inr (rate arr (nat month) (nat fc) (nat t))"
    using item3_valid[OF sh "0.prems"(1,2,3,4) tg(2,3)] .
  moreover have "nat month = nat nm - 1" using eq by (simp add: nat_diff_distrib')
  ultimately show ?case using eq tg(1) "0.hyps" by (subst max_return.simps) simp
next
  case (Suc k)
  then have ne: "month \<noteq> nm - 1" and lt: "month + 1 < nm" by linarith+
  have kk: "k = nat (nm - 1 - (month + 1))" using Suc.hyps(2) by linarith
  have pm: "nat nm - 1 - Suc k = nat month" using Suc.hyps(2) Suc.prems by linarith
  have nxt: "max_return env (month + 1) (int d) (pv * rate arr (nat month) (nat fc) d) arr nm nc
        = Inr (search_value arr (nat nc) (nat t) (nat nm - 1) k d
                 (pv * rate arr (nat month) (nat fc) d))"
    if "0 \<le> int d" "int d < nc" for d
    using Suc.hyps(1)[OF kk, of "int d"] Suc.prems lt that kk by simp
  have "max_return_loop env month fc pv arr nm nc 0 0
        = Inr (foldl max 0 (map (\<lambda>d. search_value arr (nat nc) (nat t) (nat nm - 1) k d
                 (pv * rate arr (nat month) (nat fc) d)) [nat 0..<nat nc]))"
    by (rule loop_valid[OF sh Suc.prems]) (simp_all add: nxt)
  then show ?case using ne Suc.hyps(2)[symmetric] pm by (subst max_return.simps) simp
qed



lemma foldl_max_ge: "(a::real) \<le> foldl max a xs"
proof (induction xs arbitrary: a)
  case Nil
  show ?case by simp
next
  case (Cons x xs)
  have "a \<le> max a x" by simp
  also have "\<dots> \<le> foldl max (max a x) xs" by (rule Cons.IH)
  finally show ?case by simp
qed



lemma search_value_step_nonneg: "0 \<le> search_value arr nc t lastp (Suc k) c v"
  by (simp add: foldl_max_ge)

lemma rate_nonneg:
  assumes "shape_ok arr nm nc" "nonneg_rates arr" "p < nat nm" "i < nat nc" "j < nat nc"
  shows "0 \<le> rate arr p i j"
proof -
  have "p < length arr" using assms(1,3) by (simp add: shape_ok_def) linarith
  then have a: "arr ! p \<in> set arr" by (rule nth_mem)
  then have "int (length (arr ! p)) = nc" using assms(1) by (auto simp: shape_ok_def)
  then have "i < length (arr ! p)" using assms(4) by linarith
  then have b: "arr ! p ! i \<in> set (arr ! p)" by (rule nth_mem)
  then have "int (length (arr ! p ! i)) = nc" using assms(1) a by (auto simp: shape_ok_def)
  then have "j < length (arr ! p ! i)" using assms(5) by linarith
  then have c: "arr ! p ! i ! j \<in> set (arr ! p ! i)" by (rule nth_mem)
  show ?thesis using a b c assms(2) by (auto simp: nonneg_rates_def rate_def)
qed

lemma search_value_nonneg:
  assumes "shape_ok arr nm nc" "nonneg_rates arr" "0 < nm" "c < nat nc" "t < nat nc" "0 \<le> v"
  shows "0 \<le> search_value arr (nat nc) t (nat nm - 1) k c v"
proof (cases k)
  case 0
  have "0 \<le> rate arr (nat nm - 1) c t"
    using assms by (intro rate_nonneg[where nm = nm and nc = nc]) auto
  then show ?thesis using 0 assms(6) by simp
next
  case (Suc k')
  then show ?thesis by (simp only: search_value_step_nonneg)
qed


lemma dp_row_length: "length (dp_row arr nc t lastp k) = nc"
  by (cases k) (simp_all add: Let_def)






lemma legal_paths_set:
  "set (legal_paths nc t k)
   = {ds. length ds = Suc k \<and> last ds = t \<and> (\<forall>d \<in> set (butlast ds). d < nc)}"
proof (induction k)
  case 0
  show ?case
  proof (rule set_eqI)
    fix ds :: "nat list"
    show "ds \<in> set (legal_paths nc t 0)
          \<longleftrightarrow> ds \<in> {ds. length ds = Suc 0 \<and> last ds = t \<and> (\<forall>d \<in> set (butlast ds). d < nc)}"
      by (cases ds) auto
  qed
next
  case (Suc k)
  show ?case
  proof (rule set_eqI)
    fix ds :: "nat list"
    show "ds \<in> set (legal_paths nc t (Suc k))
          \<longleftrightarrow> ds \<in> {ds. length ds = Suc (Suc k) \<and> last ds = t \<and> (\<forall>d \<in> set (butlast ds). d < nc)}"
    proof (cases ds)
      case Nil
      then show ?thesis by auto
    next
      case (Cons d ds')
      have "ds \<in> set (legal_paths nc t (Suc k)) \<longleftrightarrow> d < nc \<and> ds' \<in> set (legal_paths nc t k)"
        using Cons by auto
      also have "\<dots> \<longleftrightarrow> d < nc \<and> length ds' = Suc k \<and> last ds' = t
                      \<and> (\<forall>x \<in> set (butlast ds'). x < nc)"
        by (simp add: Suc.IH)
      also have "\<dots> \<longleftrightarrow> length ds = Suc (Suc k) \<and> last ds = t
                      \<and> (\<forall>x \<in> set (butlast ds). x < nc)"
        using Cons by (cases ds') auto
      finally show ?thesis by simp
    qed
  qed
qed


lemma max_return_valid:
  assumes "valid_call env arr nm nc month fc t"
  shows "max_return env month fc pv arr nm nc
         = Inr (search_value arr (nat nc) (nat t) (nat nm - 1) (nat (nm - 1 - month)) (nat fc) pv)"
  using assms unfolding valid_call_def by (intro max_return_search_value) simp_all



lemma item3_month_bound: "item3 arr i j k = Inr r \<Longrightarrow> i < int (length arr)"
  by (auto simp: item3_def np_index_def Let_def split: sum.splits if_splits)

lemma item3_error: "item3 arr i j k = Inl e \<Longrightarrow> e = IndexError"
  by (auto simp: item3_def np_index_def Let_def split: sum.splits if_splits)

lemma loop_ge_acc:
  "max_return_loop env month fc pv arr nm nc tc acc = Inr x \<Longrightarrow> acc \<le> x"
proof (induction "nat (nc - tc)" arbitrary: tc acc)
  case 0
  then show ?case by (subst (asm) max_return_loop.simps) simp
next
  case (Suc n)
  then have lt: "tc < nc" by linarith
  from Suc.prems obtain r y where
    "max_return_loop env month fc pv arr nm nc (tc + 1) (max acc y) = Inr x"
    by (subst (asm) max_return_loop.simps) (auto simp: lt split: sum.splits)
  then have "max acc y \<le> x"
    using Suc.hyps(1)[of "tc + 1" "max acc y"] Suc.hyps(2) by simp
  then show ?case by simp
qed



lemma beyond_last_month:
  assumes "num_months - 1 < month" "0 < num_currencies"
  shows "max_return env month fc pv arr num_months num_currencies = Inl IndexError"
  using assms(1)
proof (induction "nat (int (length arr) - month)" arbitrary: month fc pv)
  case 0
  then have "item3 arr month fc 0 = Inl IndexError"
    by (cases "item3 arr month fc 0") (auto dest: item3_month_bound item3_error)
  then show ?case using 0 assms(2)
    by (subst max_return.simps, subst max_return_loop.simps) simp
next
  case (Suc n)
  show ?case
  proof (cases "item3 arr month fc 0")
    case (Inl e)
    then have "e = IndexError" by (rule item3_error)
    then show ?thesis using Inl Suc.prems assms(2)
      by (subst max_return.simps, subst max_return_loop.simps) simp
  next
    case (Inr r)
    have "max_return env (month + 1) 0 (pv * r) arr num_months num_currencies = Inl IndexError"
      by (rule Suc.hyps(1)) (use Suc.hyps(2) Suc.prems in linarith)+
    then show ?thesis using Inr Suc.prems assms(2)
      by (subst max_return.simps, subst max_return_loop.simps) simp
  qed
qed

lemma loop_fuel_agrees:
  assumes "\<forall>j v. max_return_fuel d env (month + 1) j v arr nm nc
                 = Some (max_return env (month + 1) j v arr nm nc)"
  shows "max_return_loop_fuel (Suc d) env month fc pv arr nm nc tc acc
         = Some (max_return_loop env month fc pv arr nm nc tc acc)"
proof (induction "nat (nc - tc)" arbitrary: tc acc)
  case 0
  then show ?case
    by (simp add: max_return_loop.simps[of env month fc pv arr nm nc tc acc]
          max_return_loop_fuel.simps[of "Suc d" env month fc pv arr nm nc tc acc])
next
  case (Suc n)
  have ih: "max_return_loop_fuel (Suc d) env month fc pv arr nm nc (tc + 1) a
        = Some (max_return_loop env month fc pv arr nm nc (tc + 1) a)" for a
    using Suc.hyps(1)[of "tc + 1" a] Suc.hyps(2) by simp
  show ?case using assms ih
    by (simp add: max_return_loop.simps[of env month fc pv arr nm nc tc acc]
          max_return_loop_fuel.simps[of "Suc d" env month fc pv arr nm nc tc acc]
          split: sum.splits)
qed

lemma fuel_enough:
  assumes "month \<le> nm - 1" "nat (nm - 1 - month) \<le> d"
  shows "max_return_fuel d env month fc pv arr nm nc = Some (max_return env month fc pv arr nm nc)"
  using assms
proof (induction "nat (nm - 1 - month)" arbitrary: month fc pv d)
  case 0
  then have "month = nm - 1" by linarith
  then show ?case
    unfolding max_return.simps[of env month fc pv] max_return_fuel.simps[of d env month fc pv]
    by (simp split: sum.splits)
next
  case (Suc k)
  then have ne: "month \<noteq> nm - 1" by linarith
  from Suc obtain d' where d: "d = Suc d'" by (cases d) auto
  have "\<forall>j v. max_return_fuel d' env (month + 1) j v arr nm nc
               = Some (max_return env (month + 1) j v arr nm nc)"
  proof (intro allI)
    fix j v
    show "max_return_fuel d' env (month + 1) j v arr nm nc
          = Some (max_return env (month + 1) j v arr nm nc)"
      by (rule Suc.hyps(1)) (use Suc.hyps(2) Suc.prems d in linarith)+
  qed
  then have "max_return_loop_fuel (Suc d') env month fc pv arr nm nc 0 0
             = Some (max_return_loop env month fc pv arr nm nc 0 0)"
    by (rule loop_fuel_agrees)
  then show ?case
    unfolding max_return.simps[of env month fc pv] max_return_fuel.simps[of d env month fc pv]
    using ne d by simp
qed

lemma valid_call_next:
  assumes "valid_call env arr nm nc month fc t" "month \<noteq> nm - 1" "0 \<le> j" "j < nc"
  shows "valid_call env arr nm nc (month + 1) j t"
  using assms unfolding valid_call_def by simp

lemma valid_call_item3:
  assumes "valid_call env arr nm nc month fc t" "0 \<le> j" "j < nc"
  shows "item3 arr month fc j = Inr (rate arr (nat month) (nat fc) (nat j))"
  using assms unfolding valid_call_def by (intro item3_valid[where nm = nm]) simp_all

lemma fuel_short:
  assumes "valid_call env arr nm nc month fc t" "d < nat (nm - 1 - month)"
  shows "max_return_fuel d env month fc pv arr nm nc = None"
  using assms
proof (induction d arbitrary: month fc pv)
  case 0
  then have ne: "month \<noteq> nm - 1" by linarith
  have nc: "0 < nc" using "0.prems"(1) unfolding valid_call_def by linarith
  have i: "item3 arr month fc 0 = Inr (rate arr (nat month) (nat fc) (nat 0))"
    using "0.prems"(1) _ nc by (rule valid_call_item3) simp
  show ?case using ne nc i
    by (simp add: max_return_fuel.simps[of 0 env month fc pv]
          max_return_loop_fuel.simps[of 0 env month fc pv arr nm nc 0 0])
next
  case (Suc d)
  then have ne: "month \<noteq> nm - 1" by linarith
  have nc: "0 < nc" using Suc.prems(1) unfolding valid_call_def by linarith
  have i: "item3 arr month fc 0 = Inr (rate arr (nat month) (nat fc) (nat 0))"
    using Suc.prems(1) _ nc by (rule valid_call_item3) simp
  have v: "valid_call env arr nm nc (month + 1) 0 t"
    using Suc.prems(1) ne _ nc by (rule valid_call_next) simp
  have "max_return_fuel d env (month + 1) 0 (pv * rate arr (nat month) (nat fc) (nat 0)) arr nm nc
        = None"
    using v by (rule Suc.IH) (use Suc.prems(2) in linarith)
  then show ?case using ne nc i
    by (simp add: max_return_fuel.simps[of "Suc d" env month fc pv]
          max_return_loop_fuel.simps[of "Suc d" env month fc pv arr nm nc 0 0])
qed

lemma np_index_bounds:
  "np_index xs i = (if in_bounds (length xs) i then Inr (xs ! wrap_index (length xs) i)
                    else Inl IndexError)"
  by (simp add: np_index_def in_bounds_def wrap_index_def Let_def)

lemma wrap_index_less: "in_bounds n i \<Longrightarrow> wrap_index n i < n"
  by (auto simp: in_bounds_def wrap_index_def)

lemma item3_shape:
  assumes "shape_ok arr (int P) (int C)"
  shows "item3 arr i j k =
     (if in_bounds P i \<and> in_bounds C j \<and> in_bounds C k
      then Inr (rate arr (wrap_index P i) (wrap_index C j) (wrap_index C k))
      else Inl IndexError)"
proof (cases "in_bounds P i")
  case False
  then show ?thesis using assms by (simp add: item3_def np_index_bounds shape_ok_def)
next
  case i: True
  have P: "length arr = P" using assms by (simp add: shape_ok_def)
  let ?plane = "arr ! wrap_index P i"
  have "?plane \<in> set arr" using wrap_index_less[OF i] P by simp
  then have pl: "length ?plane = C" "\<forall>row \<in> set ?plane. length row = C"
    using assms by (auto simp: shape_ok_def)
  show ?thesis
  proof (cases "in_bounds C j")
    case False
    then show ?thesis using i P pl by (simp add: item3_def np_index_bounds)
  next
    case j: True
    have "?plane ! wrap_index C j \<in> set ?plane" using wrap_index_less[OF j] pl(1) by simp
    then have "length (?plane ! wrap_index C j) = C" using pl(2) by blast
    then show ?thesis using i j P pl by (simp add: item3_def np_index_bounds rate_def)
  qed
qed







lemma fl_ties_to_even: "fl (2 ^ 53 + 1) = 2 ^ 53 \<and> fl (2 ^ 53 + 3) = 2 ^ 53 + 4"
  by code_simp


section \<open>The search against its specification\<close>





text \<open>
  Claim C7. With non-negative rates, indices in range and a portfolio value that is not
  negative, max_return returns a number, and that number is not negative.
\<close>

theorem result_nonneg:
  assumes "valid_call env arr num_months num_currencies month from_currency target"
    and "nonneg_rates arr" and "0 \<le> portfolio_value"
  shows "\<exists>x. max_return env month from_currency portfolio_value arr num_months num_currencies
               = Inr x \<and> 0 \<le> x"
proof -
  have "0 \<le> search_value arr (nat num_currencies) (nat target) (nat num_months - 1)
               (nat (num_months - 1 - month)) (nat from_currency) portfolio_value"
    using assms unfolding valid_call_def by (intro search_value_nonneg) simp_all
  then show ?thesis by (simp add: max_return_valid[OF assms(1)])
qed

theorem result_nonneg_witness:
  "valid_call Map.empty [[[1, 2], [1, 1]], [[1, 1], [3, 1]]] 2 2 0 0 0 \<and> nonneg_rates [[[1, 2], [1, 1]], [[1, 1], [3, 1]]]
   \<and> (\<exists>x. max_return Map.empty 0 0 1 [[[1, 2], [1, 1]], [[1, 1], [3, 1]]] 2 2 = Inr x \<and> 0 \<le> x)"
proof -
  have v: "valid_call Map.empty [[[1, 2], [1, 1]], [[1, 1], [3, 1]]] 2 2 0 0 0"
    by code_simp
  have n: "nonneg_rates [[[1, 2], [1, 1]], [[1, 1], [3, 1]]]"
    by (simp add: nonneg_rates_def)
  show ?thesis using v n result_nonneg[OF v n, of 1] by simp
qed

text \<open>
  Claim C2. At the last month (month = num_months - 1, so also whenever there is a single
  month) the result is the portfolio value times the rate from the current currency into
  the configured target currency; the call needs no recursive call at all (a recursion
  depth of 0 is enough). With one period, two currencies, target 0, rates
  [[1, 2], [1/2, 1]], starting currency 1 and value 1, the result is 1/2.
\<close>

theorem terminal_rule:
  assumes "valid_call env arr num_months num_currencies month c target"
    and "month = num_months - 1"
  shows "max_return env month c v arr num_months num_currencies
           = Inr (v * rate arr (nat month) (nat c) (nat target))
         \<and> max_return_fuel 0 env month c v arr num_months num_currencies
           = Some (Inr (v * rate arr (nat month) (nat c) (nat target)))
         \<and> max_return Map.empty 0 1 1 [[[1, 2], [1 / 2, 1]]] 1 2 = Inr (1 / 2)"
proof -
  have t: "py_int (getenv env ''TO_TRADE_CURRENCY'' ''0'') = Inr target"
    and r: "0 \<le> target" "target < num_currencies"
    using assms(1) unfolding valid_call_def by simp_all
  have i: "item3 arr month c target = Inr (rate arr (nat month) (nat c) (nat target))"
    using assms(1) r by (rule valid_call_item3)
  have 1: "max_return env month c v arr num_months num_currencies
           = Inr (v * rate arr (nat month) (nat c) (nat target))"
    unfolding max_return.simps[of env month c v] using assms(2) t i by simp
  have 2: "max_return_fuel 0 env month c v arr num_months num_currencies
           = Some (Inr (v * rate arr (nat month) (nat c) (nat target)))"
    unfolding max_return_fuel.simps[of 0 env month c v] using assms(2) t i by simp
  have 3: "max_return Map.empty 0 1 1 [[[1, 2], [1 / 2, 1]]] 1 2 = Inr (1 / 2)"
    by code_simp
  show ?thesis using 1 2 3 by simp
qed

theorem terminal_rule_witness:
  "valid_call Map.empty [[[1, 2], [1 / 2, 1]]] 1 2 0 1 0 \<and> (0::int) = 1 - 1
   \<and> max_return Map.empty 0 1 3 [[[1, 2], [1 / 2, 1]]] 1 2
       = Inr (3 * rate [[[1, 2], [1 / 2, 1]]] 0 1 0)
   \<and> max_return_fuel 0 Map.empty 0 1 3 [[[1, 2], [1 / 2, 1]]] 1 2
       = Some (Inr (3 * rate [[[1, 2], [1 / 2, 1]]] 0 1 0))"
proof -
  have v: "valid_call Map.empty [[[1, 2], [1 / 2, 1]]] 1 2 0 1 0"
    by code_simp
  have h: "(0::int) = 1 - 1" by simp
  show ?thesis using v h terminal_rule[OF v h, of 3] by simp
qed

text \<open>
  Claim C9. At a month before the last one every number that max_return returns is at
  least 0, whatever the sign of the portfolio value and of the tensor's entries, since
  the accumulator starts at 0 and only grows; and on a tensor of the declared shape with
  indices in range it does return a number.
\<close>

theorem clamped_at_zero:
  assumes "month < num_months - 1"
  shows "(\<forall>x. max_return env month from_currency portfolio_value arr num_months num_currencies
               = Inr x \<longrightarrow> 0 \<le> x)
         \<and> (valid_call env arr num_months num_currencies month from_currency target \<longrightarrow>
              (\<exists>y. max_return env month from_currency portfolio_value arr num_months
                      num_currencies = Inr y \<and> 0 \<le> y))"
proof -
  have ne: "month \<noteq> num_months - 1" using assms by simp
  have a: "0 \<le> x"
    if "max_return env month from_currency portfolio_value arr num_months num_currencies = Inr x"
    for x
  proof -
    from that ne
    have "max_return_loop env month from_currency portfolio_value arr num_months num_currencies
            0 0 = Inr x"
      by (simp add: max_return.simps[of env month from_currency portfolio_value])
    then show ?thesis by (rule loop_ge_acc)
  qed
  show ?thesis using a by (auto simp: max_return_valid)
qed

theorem clamped_at_zero_witness:
  "(0::int) < 2 - 1
   \<and> valid_call Map.empty [[[1, - 2], [1, 1]], [[1, 1], [- 3, 1]]] 2 2 0 0 0
   \<and> (\<exists>y. max_return Map.empty 0 0 (- 1) [[[1, - 2], [1, 1]], [[1, 1], [- 3, 1]]] 2 2 = Inr y
          \<and> 0 \<le> y)"
proof -
  have v: "valid_call Map.empty [[[1, - 2], [1, 1]], [[1, 1], [- 3, 1]]] 2 2 0 0 0"
    by code_simp
  have h: "(0::int) < 2 - 1" by simp
  show ?thesis
    using v h
      clamped_at_zero[OF h, of Map.empty 0 "- 1" "[[[1, - 2], [1, 1]], [[1, 1], [- 3, 1]]]" 2 0]
    by simp
qed

text \<open>
  Claim C10. For 0 \<le> month \<le> num_months - 1 the call returns within a recursion depth of
  num_months - 1 - month (every recursive call is at month + 1 and the recursion stops at
  month = num_months - 1); for a well-formed call no smaller depth is enough, so the depth
  is exactly that. No base case guards a month beyond the last: with num_currencies > 0
  such a call ends in the IndexError of a read past the tensor.
\<close>

theorem recursion_depth:
  assumes "0 \<le> month" and "month \<le> num_months - 1"
  shows "max_return_fuel (nat (num_months - 1 - month)) env month from_currency portfolio_value
             arr num_months num_currencies
           = Some (max_return env month from_currency portfolio_value arr num_months
                     num_currencies)
         \<and> (valid_call env arr num_months num_currencies month from_currency target \<longrightarrow>
              (\<forall>d < nat (num_months - 1 - month).
                 max_return_fuel d env month from_currency portfolio_value arr num_months
                   num_currencies = None))
         \<and> (\<forall>m c v. num_months - 1 < m \<and> 0 < num_currencies \<longrightarrow>
              max_return env m c v arr num_months num_currencies = Inl IndexError)"
  using assms by (simp add: fuel_enough fuel_short beyond_last_month)

theorem recursion_depth_witness:
  "(0::int) \<le> 0 \<and> (0::int) \<le> 2 - 1
   \<and> valid_call Map.empty [[[1, 2], [1, 1]], [[1, 1], [3, 1]]] 2 2 0 0 0
   \<and> max_return_fuel 1 Map.empty 0 0 1 [[[1, 2], [1, 1]], [[1, 1], [3, 1]]] 2 2 = Some (Inr 6)
   \<and> max_return_fuel 0 Map.empty 0 0 1 [[[1, 2], [1, 1]], [[1, 1], [3, 1]]] 2 2 = None
   \<and> max_return Map.empty 2 0 1 [[[1, 2], [1, 1]], [[1, 1], [3, 1]]] 2 2 = Inl IndexError"
proof -
  have v: "valid_call Map.empty [[[1, 2], [1, 1]], [[1, 1], [3, 1]]] 2 2 0 0 0"
    by code_simp
  have r: "max_return Map.empty 0 0 1 [[[1, 2], [1, 1]], [[1, 1], [3, 1]]] 2 2 = Inr 6"
    by code_simp
  have h: "(0::int) \<le> 0" "(0::int) \<le> 2 - 1" by simp_all
  show ?thesis
    using v r recursion_depth[OF h, of Map.empty 0 1 "[[[1, 2], [1, 1]], [[1, 1], [3, 1]]]" 2 0]
    by simp
qed

section \<open>Where the code differs from its specification\<close>

text \<open>
  Claim C4, as the specification states it, asks max_return to reject an inconsistent
  shape, an index out of bounds and a negative value before it computes anything. The
  code has no such check: a negative portfolio value is multiplied through, and a
  tensor with more months than num_months or a negative index within the tensor's
  dimensions is read as NumPy reads it.
\<close>

theorem no_validation_counterexample:
  "max_return Map.empty 0 0 (- 1) [[[2]]] 1 1 = Inr (- 2)
   \<and> max_return Map.empty 0 (- 1) 1 [[[2, 3], [4, 5]], [[1, 1], [1, 1]]] 1 2 = Inr 4"
  by code_simp

text \<open>
  Claim C4, amended. On a tensor of shape (P, C, C) the only failure of a tensor read is
  an IndexError, for an index outside [-n, n) on its axis. At the last month max_return
  returns portfolio_value * rate[month][from_currency][target] when month lies in [-P, P)
  and from_currency and target lie in [-C, C), a negative index counting from the end,
  and fails with IndexError otherwise; at any other month with num_currencies > 0 it
  fails with IndexError at its first read when month or from_currency lies outside these
  ranges. Neither num_months nor num_currencies is compared with the tensor's shape.
\<close>

theorem index_errors_only:
  assumes "shape_ok arr (int P) (int C)"
    and "py_int (getenv env ''TO_TRADE_CURRENCY'' ''0'') = Inr target"
  shows "(month = num_months - 1 \<longrightarrow>
            max_return env month from_currency portfolio_value arr num_months num_currencies
            = (if in_bounds P month \<and> in_bounds C from_currency \<and> in_bounds C target
               then Inr (portfolio_value
                         * rate arr (wrap_index P month) (wrap_index C from_currency)
                             (wrap_index C target))
               else Inl IndexError))
         \<and> (month \<noteq> num_months - 1 \<and> 0 < num_currencies
              \<and> \<not> (in_bounds P month \<and> in_bounds C from_currency) \<longrightarrow>
            max_return env month from_currency portfolio_value arr num_months num_currencies
            = Inl IndexError)"
proof (intro conjI impI)
  assume "month = num_months - 1"
  then show "max_return env month from_currency portfolio_value arr num_months num_currencies
            = (if in_bounds P month \<and> in_bounds C from_currency \<and> in_bounds C target
               then Inr (portfolio_value
                         * rate arr (wrap_index P month) (wrap_index C from_currency)
                             (wrap_index C target))
               else Inl IndexError)"
    unfolding max_return.simps[of env month from_currency portfolio_value]
    using assms(2) by (simp add: item3_shape[OF assms(1)])
next
  assume a: "month \<noteq> num_months - 1 \<and> 0 < num_currencies
             \<and> \<not> (in_bounds P month \<and> in_bounds C from_currency)"
  then have "item3 arr month from_currency 0 = Inl IndexError"
    by (auto simp: item3_shape[OF assms(1)])
  then show "max_return env month from_currency portfolio_value arr num_months num_currencies
            = Inl IndexError"
    unfolding max_return.simps[of env month from_currency portfolio_value]
      max_return_loop.simps[of env month from_currency portfolio_value arr num_months
        num_currencies 0 0]
    using a by simp
qed

theorem index_errors_only_witness:
  "shape_ok [[[2, 3], [4, 5]], [[1, 1], [1, 1]]] (int 2) (int 2)
   \<and> py_int (getenv Map.empty ''TO_TRADE_CURRENCY'' ''0'') = Inr 0
   \<and> max_return Map.empty 0 (- 1) (- 1) [[[2, 3], [4, 5]], [[1, 1], [1, 1]]] 1 2 = Inr (- 4)
   \<and> max_return Map.empty 0 2 1 [[[2, 3], [4, 5]], [[1, 1], [1, 1]]] 1 2 = Inl IndexError
   \<and> max_return Map.empty 0 2 1 [[[2, 3], [4, 5]], [[1, 1], [1, 1]]] 2 2 = Inl IndexError"
proof -
  have s: "shape_ok [[[2, 3], [4, 5]], [[1, 1], [1, 1]]] (int 2) (int 2)"
    by (simp add: shape_ok_def)
  have t: "py_int (getenv Map.empty ''TO_TRADE_CURRENCY'' ''0'') = Inr 0"
    by code_simp
  show ?thesis
    using s t
      index_errors_only[OF s t, of 0 1 "- 1" "- 1" 2]
      index_errors_only[OF s t, of 0 1 2 1 2]
      index_errors_only[OF s t, of 0 2 2 1 2]
    by (simp add: in_bounds_def wrap_index_def rate_def)
qed







section \<open>Concrete scenarios\<close>

text \<open>
  Claim C8. Two periods, two currencies, the target currency left at its default 0,
  period-0 rates [[1,2],[1,1]], period-1 rates [[1,1],[3,1]], starting in currency 0 with
  value 1: the search returns 6, the value of the path 0 to 1 (rate 2), then 1 to 0 (rate 3).
\<close>

theorem multi_period_scenario:
  "max_return Map.empty 0 0 1 [[[1, 2], [1, 1]], [[1, 1], [3, 1]]] 2 2 = Inr 6"
  by code_simp

end
